theory Spec2Isabelle
  imports Main
begin

section \<open>JavaScript values and strings\<close>

text \<open>
  The three exported functions accept arguments of any type, so arguments and results are
  JavaScript values. Only \<open>typeof\<close> and truthiness of a non-string value are ever
  observed by the code. A \<open>JSNumber\<close> stands for an integer-valued number; a value of any
  other type (array, function, symbol) is a truthy non-string and behaves as \<open>JSObject\<close>.

  A string is a list of code units. The type \<open>char\<close> has 256 values, read here as the
  code units U+0000 to U+00FF; on that range \<open>toLowerCase\<close>, \<open>trim\<close> and the
  regular-expression dot are modelled exactly as ECMAScript defines them.
\<close>

datatype jsvalue =
    JSUndefined
  | JSNull
  | JSBoolean bool
  | JSNumber int
  | JSString string
  | JSObject

datatype exception = SyntaxError | TypeError

text \<open>
  The outcome of a call: it returns a value, or it throws. \<open>Unmodelled\<close> marks a call
  that builds a regular expression from a pattern outside the fragment of the pattern
  language covered below; nothing is stated about the code for such calls.
\<close>

datatype completion = Return jsvalue | Throw exception | Unmodelled

fun truthy :: "jsvalue \<Rightarrow> bool" where
  "truthy JSUndefined = False"
| "truthy JSNull = False"
| "truthy (JSBoolean b) = b"
| "truthy (JSNumber n) = (n \<noteq> 0)"
| "truthy (JSString s) = (s \<noteq> [])"
| "truthy JSObject = True"

fun typeof :: "jsvalue \<Rightarrow> string" where
  "typeof JSUndefined = ''undefined''"
| "typeof JSNull = ''object''"
| "typeof (JSBoolean b) = ''boolean''"
| "typeof (JSNumber n) = ''number''"
| "typeof (JSString s) = ''string''"
| "typeof JSObject = ''object''"

definition code_unit :: "char \<Rightarrow> nat" where
  "code_unit c = of_char c"

text \<open>\<open>String.prototype.toLowerCase\<close>: A to Z and the Latin-1 capitals U+00C0 to U+00DE
  (without the multiplication sign U+00D7) move up by 32; nothing else changes.\<close>

definition lower_char :: "char \<Rightarrow> char" where
  "lower_char c =
     (let n = code_unit c
      in if (65 \<le> n \<and> n \<le> 90) \<or> (192 \<le> n \<and> n \<le> 222 \<and> n \<noteq> 215)
         then char_of (n + 32) else c)"

definition toLowerCase :: "string \<Rightarrow> string" where
  "toLowerCase s = map lower_char s"

text \<open>White space and line terminators below U+0100, as \<open>String.prototype.trim\<close>
  strips them: TAB, LF, VT, FF, CR, SPACE and NO-BREAK SPACE.\<close>

definition whitespace :: "char \<Rightarrow> bool" where
  "whitespace c = (code_unit c \<in> {9, 10, 11, 12, 13, 32, 160})"

definition trim :: "string \<Rightarrow> string" where
  "trim s = rev (dropWhile whitespace (rev (dropWhile whitespace s)))"

text \<open>The line terminators, which the regular-expression dot refuses: LF, CR, U+2028 and
  U+2029. The last two lie outside the range of code units modelled.\<close>

definition line_terminator :: "char \<Rightarrow> bool" where
  "line_terminator c = (code_unit c \<in> {10, 13})"

text \<open>\<open>includes\<close> for a one-character needle; calling a method on \<open>undefined\<close>
  throws a TypeError.\<close>

fun includes_char :: "jsvalue \<Rightarrow> char \<Rightarrow> completion" where
  "includes_char (JSString s) c = Return (JSBoolean (c \<in> set s))"
| "includes_char v c = Throw TypeError"

text \<open>\<open>xs[i]\<close> on an array of strings: \<open>undefined\<close> beyond its length.\<close>

definition element_at :: "string list \<Rightarrow> nat \<Rightarrow> jsvalue" where
  "element_at xs i = (if i < length xs then JSString (xs ! i) else JSUndefined)"

text \<open>\<open>s.split(/c/)\<close> for a regular expression that is one literal character: the
  pieces between all occurrences of the character; the empty string gives one empty piece.\<close>

fun split_on :: "char \<Rightarrow> string \<Rightarrow> string list" where
  "split_on c [] = [[]]"
| "split_on c (x # xs) =
     (if x = c then [] # split_on c xs
      else (case split_on c xs of
              [] \<Rightarrow> [[x]]
            | y # ys \<Rightarrow> (x # y) # ys))"

section \<open>Regular expressions\<close>

text \<open>
  The fragment of the pattern language that is modelled: a sequence of terms, each an
  assertion (\<open>^\<close> or \<open>$\<close>) or an atom with an optional quantifier \<open>*\<close>, \<open>+\<close> or
  \<open>?\<close> (each possibly followed by the lazy mark \<open>?\<close>). An atom is the dot, a literal
  character, or a backslash before a syntax character. No flags are set: \<open>$\<close> holds at
  the end of the input only, and matching is case-sensitive.
\<close>

datatype atom = AnyChar | Literal char

datatype quantifier = Once | ZeroOrMore | OneOrMore | ZeroOrOne

datatype node = Atom atom quantifier | AssertStart | AssertEnd

datatype regexp = RegExp "node list" | InvalidPattern | UnmodelledPattern

fun lazy_mark :: "string \<Rightarrow> string" where
  "lazy_mark [] = []"
| "lazy_mark (c # r) = (if c = CHR ''?'' then r else c # r)"

fun quantifier_of :: "string \<Rightarrow> quantifier \<times> string" where
  "quantifier_of [] = (Once, [])"
| "quantifier_of (c # r) =
     (if c = CHR ''*'' then (ZeroOrMore, lazy_mark r)
      else if c = CHR ''+'' then (OneOrMore, lazy_mark r)
      else if c = CHR ''?'' then (ZeroOrOne, lazy_mark r)
      else (Once, c # r))"

definition syntax_character :: "char \<Rightarrow> bool" where
  "syntax_character c =
     (c = CHR 0x5C \<or> c \<in> set ''^$.*+?()[]{}|'')"

fun followed_by :: "node \<Rightarrow> regexp \<Rightarrow> regexp" where
  "followed_by t (RegExp ts) = RegExp (t # ts)"
| "followed_by t InvalidPattern = InvalidPattern"
| "followed_by t UnmodelledPattern = UnmodelledPattern"

text \<open>
  \<open>new RegExp(pattern)\<close>. A quantifier with nothing to repeat, an unmatched closing
  parenthesis and a backslash at the end of the pattern are syntax errors. Groups,
  character classes, braces, alternation and the escapes with a meaning of their own
  are outside the fragment.
\<close>

function new_RegExp :: "string \<Rightarrow> regexp" where
  "new_RegExp [] = RegExp []"
| "new_RegExp (c # r) =
     (if c = CHR ''^'' then followed_by AssertStart (new_RegExp r)
      else if c = CHR ''$'' then followed_by AssertEnd (new_RegExp r)
      else if c = CHR ''*'' \<or> c = CHR ''+'' \<or> c = CHR ''?'' then InvalidPattern
      else if c = CHR '')'' then InvalidPattern
      else if c = CHR ''('' \<or> c = CHR ''['' \<or> c = CHR ''{'' \<or> c = CHR ''|''
        then UnmodelledPattern
      else if c = CHR 0x5C then
        (case r of
           [] \<Rightarrow> InvalidPattern
         | d # r' \<Rightarrow>
             if syntax_character d \<or> d = CHR ''/''
             then followed_by (Atom (Literal d) (fst (quantifier_of r')))
                    (new_RegExp (snd (quantifier_of r')))
             else UnmodelledPattern)
      else followed_by (Atom (if c = CHR ''.'' then AnyChar else Literal c)
                          (fst (quantifier_of r)))
             (new_RegExp (snd (quantifier_of r))))"
  by pat_completeness auto
termination
proof (relation "measure length")
  have lazy: "length (lazy_mark r) \<le> length r" for r
    by (cases r) auto
  have shorter: "length (snd (quantifier_of r)) \<le> length r" for r
    using lazy [of "tl r"] by (cases r) auto
  show "wf (measure length)" by simp
  show "(r, c # r) \<in> measure length" for c r by simp
  show "(r, c # r) \<in> measure length" for c r by simp
  show "(snd (quantifier_of r'), c # r) \<in> measure length" if "r = d # r'" for c r d r'
    using shorter [of r'] that by simp
  show "(snd (quantifier_of r), c # r) \<in> measure length" for c r
    using shorter [of r] by simp
qed

fun atom_accepts :: "atom \<Rightarrow> char \<Rightarrow> bool" where
  "atom_accepts AnyChar c = (\<not> line_terminator c)"
| "atom_accepts (Literal a) c = (c = a)"

text \<open>
  \<open>matches ts i s\<close>: the terms \<open>ts\<close> match some prefix of \<open>s\<close>, where \<open>s\<close> is the
  input from index \<open>i\<close> on. A backtracking matcher succeeds at an index exactly when
  some way of matching exists, so greedy and lazy quantifiers agree here.
\<close>

fun matches :: "node list \<Rightarrow> nat \<Rightarrow> string \<Rightarrow> bool" where
  "matches [] i s = True"
| "matches (AssertStart # ts) i s = (i = 0 \<and> matches ts i s)"
| "matches (AssertEnd # ts) i s = (s = [] \<and> matches ts i s)"
| "matches (Atom a Once # ts) i [] = False"
| "matches (Atom a Once # ts) i (c # cs) = (atom_accepts a c \<and> matches ts (Suc i) cs)"
| "matches (Atom a ZeroOrOne # ts) i [] = matches ts i []"
| "matches (Atom a ZeroOrOne # ts) i (c # cs) =
     ((atom_accepts a c \<and> matches ts (Suc i) cs) \<or> matches ts i (c # cs))"
| "matches (Atom a ZeroOrMore # ts) i [] = matches ts i []"
| "matches (Atom a ZeroOrMore # ts) i (c # cs) =
     ((atom_accepts a c \<and> matches (Atom a ZeroOrMore # ts) (Suc i) cs)
      \<or> matches ts i (c # cs))"
| "matches (Atom a OneOrMore # ts) i [] = False"
| "matches (Atom a OneOrMore # ts) i (c # cs) =
     (atom_accepts a c \<and> matches (Atom a ZeroOrMore # ts) (Suc i) cs)"

text \<open>\<open>s.search(re)\<close>: the least index at which the expression matches, or -1.\<close>

fun search_from :: "node list \<Rightarrow> nat \<Rightarrow> string \<Rightarrow> int" where
  "search_from ts i [] = (if matches ts i [] then int i else -1)"
| "search_from ts i (c # cs) =
     (if matches ts i (c # cs) then int i else search_from ts (Suc i) cs)"

definition search :: "string \<Rightarrow> node list \<Rightarrow> int" where
  "search s ts = search_from ts 0 s"

text \<open>The regular-expression literal \<open>/@/\<close>.\<close>

definition at_sign :: "node list" where
  "at_sign = [Atom (Literal CHR ''@'') Once]"

section \<open>The matcher\<close>

text \<open>
  A configuration is an object with a \<open>domains\<close> mapping. The mapping is held as the
  list of its entries in the order in which \<open>Object.keys\<close> enumerates them; the values
  are never inspected.
\<close>

record 'm config =
  domains :: "(string \<times> 'm) list"

definition Object_keys :: "(string \<times> 'm) list \<Rightarrow> string list" where
  "Object_keys obj = map fst obj"

text \<open>\<open>dom.replace(/\./g, '\\.')\<close>: a backslash before every dot.\<close>

definition escape_dots :: "string \<Rightarrow> string" where
  "escape_dots dom' = concat (map (\<lambda>c. if c = CHR ''.'' then [CHR 0x5C, CHR ''.''] else [c]) dom')"

text \<open>The template literal: dot, plus, backslash, dot, the escaped key, dollar.\<close>

definition subdomain_pattern :: "string \<Rightarrow> string" where
  "subdomain_pattern dom' = [CHR ''.'', CHR ''+'', CHR 0x5C, CHR ''.''] @ escape_dots dom' @ [CHR ''$'']"

definition hostnameFromEmailAddress :: "jsvalue \<Rightarrow> jsvalue" where
  "hostnameFromEmailAddress email =
     (case email of
        JSString e \<Rightarrow>
          if truthy email \<and> typeof email = ''string'' \<and> search e at_sign > 0
          then element_at (split_on CHR ''@'' e) 1
          else JSNull
      | _ \<Rightarrow> JSNull)"

text \<open>The loop over the keys, with its two early returns.\<close>

fun match_keys :: "string list \<Rightarrow> string \<Rightarrow> completion" where
  "match_keys [] normalizedDomain = Return (JSBoolean False)"
| "match_keys (dom' # rest) normalizedDomain =
     (if dom' = normalizedDomain then Return (JSString dom')
      else (case new_RegExp (subdomain_pattern dom') of
              InvalidPattern \<Rightarrow> Throw SyntaxError
            | UnmodelledPattern \<Rightarrow> Unmodelled
            | RegExp re \<Rightarrow>
                if search normalizedDomain re = 0 then Return (JSString dom')
                else match_keys rest normalizedDomain))"

text \<open>
  The bundled data set \<open>static_json_v1\<close> (\<open>json/data.json\<close>) is a parameter. The optional
  argument \<open>json\<close> is \<open>None\<close> when it is left out or falsy.
\<close>

definition isFakeDomain :: "'m config \<Rightarrow> jsvalue \<Rightarrow> 'm config option \<Rightarrow> completion" where
  "isFakeDomain static_json_v1 domain json =
     (case domain of
        JSString d \<Rightarrow>
          if \<not> truthy domain \<or> typeof domain \<noteq> ''string'' then Return (JSBoolean False)
          else
            (let normalizedDomain = trim (toLowerCase d);
                 json' = (case json of None \<Rightarrow> static_json_v1 | Some j \<Rightarrow> j)
             in match_keys (Object_keys (domains json')) normalizedDomain)
      | _ \<Rightarrow> Return (JSBoolean False))"

definition isFakeEmail :: "'m config \<Rightarrow> jsvalue \<Rightarrow> 'm config option \<Rightarrow> completion" where
  "isFakeEmail static_json_v1 email json =
     isFakeDomain static_json_v1 (hostnameFromEmailAddress email) json"

definition isPlusAddressingEmail :: "jsvalue \<Rightarrow> completion" where
  "isPlusAddressingEmail email =
     (case email of
        JSString e \<Rightarrow>
          if truthy email \<and> typeof email = ''string'' \<and> search e at_sign > 0
          then includes_char (element_at (split_on CHR ''@'' e) 0) CHR ''+''
          else Return (JSBoolean False)
      | _ \<Rightarrow> Return (JSBoolean False))"

section \<open>Predicates of the statements\<close>

text \<open>A key free of the characters that mean something in a pattern, the dot apart
  (the code escapes dots).\<close>

definition regex_plain :: "string \<Rightarrow> bool" where
  "regex_plain k = (\<forall>c\<in>set k. c \<noteq> CHR 0x5C \<and> c \<notin> set ''^$*+?()[]{}|'')"

text \<open>The terms of a pattern that is a run of literal characters.\<close>

definition literal_nodes :: "string \<Rightarrow> node list" where
  "literal_nodes k = map (\<lambda>c. Atom (Literal c) Once) k"

definition no_line_terminator :: "string \<Rightarrow> bool" where
  "no_line_terminator s = (\<forall>c\<in>set s. \<not> line_terminator c)"

text \<open>\<open>n\<close> ends with a dot and \<open>k\<close>, with at least one character before the dot.\<close>

definition dot_suffix :: "string \<Rightarrow> string \<Rightarrow> bool" where
  "dot_suffix k n = (Suc (length k) < length n \<and> drop (length n - Suc (length k)) n = CHR ''.'' # k)"

text \<open>What precedes that suffix.\<close>

definition label_of :: "string \<Rightarrow> string \<Rightarrow> string" where
  "label_of k n = take (length n - Suc (length k)) n"

definition subdomain_hit :: "string \<Rightarrow> string \<Rightarrow> bool" where
  "subdomain_hit k n = (dot_suffix k n \<and> no_line_terminator (label_of k n))"

text \<open>The two tests of the loop body, for a key that is \<open>regex_plain\<close>.\<close>

definition key_hit :: "string \<Rightarrow> string \<Rightarrow> bool" where
  "key_hit k n = (k = n \<or> subdomain_hit k n)"

text \<open>\<open>a\<close> ends with a dot and \<open>b\<close>: as domain names, \<open>b\<close> is a proper parent of \<open>a\<close>.\<close>

definition parent_of :: "string \<Rightarrow> string \<Rightarrow> bool" where
  "parent_of b a = (length b < length a \<and> drop (length a - Suc (length b)) a = CHR ''.'' # b)"

definition overlap_free :: "string list \<Rightarrow> bool" where
  "overlap_free ks = (\<forall>a\<in>set ks. \<forall>b\<in>set ks. \<not> parent_of b a)"

text \<open>The keys the loop runs over: those of \<open>json\<close>, or of the bundled data set.\<close>

definition effective_keys :: "'m config \<Rightarrow> 'm config option \<Rightarrow> string list" where
  "effective_keys static_json_v1 json =
     Object_keys (domains (case json of None \<Rightarrow> static_json_v1 | Some j \<Rightarrow> j))"

text \<open>The configuration of the test suite.\<close>

definition mockJson :: "unit config" where
  "mockJson = \<lparr>domains = [(''tempmail.com'', ()), (''fakeemail.net'', ()),
                          (''throwaway.email'', ()), (''guerrillamail.com'', ())]\<rparr>"

text \<open>The inputs without a local part: not a non-empty string, no at sign, or an at sign
  in front.\<close>

fun no_local_part :: "jsvalue \<Rightarrow> bool" where
  "no_local_part (JSString s) = (s = [] \<or> CHR ''@'' \<notin> set s \<or> hd s = CHR ''@'')"
| "no_local_part v = True"

text \<open>The \<open>upper\<close> of the testable properties: \<open>String.prototype.toUpperCase\<close> on a
  string of ASCII characters, where a to z move down by 32. Statements that use it are about
  ASCII strings.\<close>

definition upper_char :: "char \<Rightarrow> char" where
  "upper_char c = (let n = code_unit c in if 97 \<le> n \<and> n \<le> 122 then char_of (n - 32) else c)"

definition toUpperCase :: "string \<Rightarrow> string" where
  "toUpperCase s = map upper_char s"

definition ascii :: "string \<Rightarrow> bool" where
  "ascii s = (\<forall>c\<in>set s. code_unit c < 128)"

text \<open>The shapes of a normal completion: a string or \<open>false\<close>, and a boolean.\<close>

fun returns_string_or_false :: "completion \<Rightarrow> bool" where
  "returns_string_or_false (Return (JSString s)) = True"
| "returns_string_or_false (Return (JSBoolean b)) = (\<not> b)"
| "returns_string_or_false c = False"

fun returns_boolean :: "completion \<Rightarrow> bool" where
  "returns_boolean (Return (JSBoolean b)) = True"
| "returns_boolean c = False"

text \<open>Configurations for the concrete cases: one key; a key and its parent domain; a key
  with a line feed in it; a key that is a closing parenthesis; a key with a blank in front;
  a key with a capital; the empty key.\<close>

definition tempmail_only :: "unit config" where
  "tempmail_only = \<lparr>domains = [(''tempmail.com'', ())]\<rparr>"

definition overlapping :: "unit config" where
  "overlapping = \<lparr>domains = [(''com'', ()), (''tempmail.com'', ())]\<rparr>"

definition newline_key :: "unit config" where
  "newline_key = \<lparr>domains = [(''mail.com'', ()), (''x'' @ [CHR 0x0A] @ ''y.mail.com'', ())]\<rparr>"

definition unbalanced_key :: "unit config" where
  "unbalanced_key = \<lparr>domains = [('')'', ())]\<rparr>"

definition blank_key :: "unit config" where
  "blank_key = \<lparr>domains = [('' a.com'', ())]\<rparr>"

definition uppercase_key :: "unit config" where
  "uppercase_key = \<lparr>domains = [(''Tempmail.com'', ())]\<rparr>"

definition empty_key :: "unit config" where
  "empty_key = \<lparr>domains = [([], ())]\<rparr>"

section \<open>Facts about the library functions\<close>

lemma search_from_range: "search_from ts i s = -1 \<or> int i \<le> search_from ts i s"
  by (induction s arbitrary: i) (auto, force)

lemma search_zero_iff: "search s ts = 0 \<longleftrightarrow> matches ts 0 s"
proof (cases s)
  case Nil
  then show ?thesis by (simp add: search_def)
next
  case (Cons c cs)
  with search_from_range [of ts "Suc 0" cs] show ?thesis
    by (auto simp: search_def)
qed

lemma search_from_at_sign:
  "search_from at_sign i s =
     (if CHR ''@'' \<in> set s then int (i + length (takeWhile (\<lambda>c. c \<noteq> CHR ''@'') s)) else -1)"
  by (induction s arbitrary: i) (auto simp: at_sign_def)

lemma search_at_sign_found:
  "CHR ''@'' \<notin> set a \<Longrightarrow> search (a @ CHR ''@'' # r) at_sign = int (length a)"
proof -
  assume a: "CHR ''@'' \<notin> set a"
  then have "takeWhile (\<lambda>c. c \<noteq> CHR ''@'') (a @ CHR ''@'' # r) = a"
    by (induction a) auto
  then show ?thesis by (simp add: search_def search_from_at_sign)
qed

lemma search_at_sign_absent: "CHR ''@'' \<notin> set s \<Longrightarrow> search s at_sign = -1"
  by (simp add: search_def search_from_at_sign)

lemma split_on_nonempty: "split_on c s \<noteq> []"
  by (induction s) (auto split: list.splits)

lemma split_on_absent: "c \<notin> set a \<Longrightarrow> split_on c a = [a]"
  by (induction a) auto

lemma split_on_first: "c \<notin> set a \<Longrightarrow> split_on c (a @ c # r) = a # split_on c r"
  by (induction a) auto

lemma split_on_pieces: "x \<in> set (split_on c s) \<Longrightarrow> c \<notin> set x"
  by (induction s arbitrary: x) (auto split: if_splits list.splits)

lemma quantifier_of_escaped:
  "regex_plain k \<Longrightarrow> quantifier_of (escape_dots k @ [CHR ''$'']) = (Once, escape_dots k @ [CHR ''$''])"
  by (cases k) (auto simp: regex_plain_def escape_dots_def)

lemma new_RegExp_escaped:
  "regex_plain k \<Longrightarrow> new_RegExp (escape_dots k @ [CHR ''$'']) = RegExp (literal_nodes k @ [AssertEnd])"
proof (induction k)
  case Nil
  show ?case by (simp add: escape_dots_def literal_nodes_def)
next
  case (Cons c k)
  then have k: "regex_plain k" and c: "c \<noteq> CHR 0x5C" "c \<notin> set ''^$*+?()[]{}|''"
    by (simp_all add: regex_plain_def)
  have step: "escape_dots (c # k) = (if c = CHR ''.'' then [CHR 0x5C, CHR ''.''] else [c]) @ escape_dots k"
    by (simp add: escape_dots_def)
  show ?case
    using c Cons.IH [OF k] quantifier_of_escaped [OF k]
    by (simp add: step literal_nodes_def syntax_character_def)
qed

lemma new_RegExp_subdomain_pattern:
  "regex_plain k \<Longrightarrow> new_RegExp (subdomain_pattern k) =
     RegExp (Atom AnyChar OneOrMore # Atom (Literal CHR ''.'') Once # literal_nodes k @ [AssertEnd])"
  using new_RegExp_escaped [of k] quantifier_of_escaped [of k]
  by (simp add: subdomain_pattern_def syntax_character_def)

lemma matches_literal_nodes: "matches (literal_nodes k @ [AssertEnd]) i s \<longleftrightarrow> s = k"
proof (induction k arbitrary: i s)
  case Nil
  show ?case by (auto simp: literal_nodes_def)
next
  case (Cons c k)
  then show ?case by (cases s) (auto simp: literal_nodes_def)
qed

lemma matches_star:
  "matches (Atom AnyChar ZeroOrMore # ts) i s \<longleftrightarrow>
     (\<exists>p r. s = p @ r \<and> no_line_terminator p \<and> matches ts (i + length p) r)"
proof (induction s arbitrary: i)
  case Nil
  show ?case by (auto simp: no_line_terminator_def)
next
  case (Cons c cs)
  show ?case (is "?L = ?R")
  proof
    assume ?L
    then consider "\<not> line_terminator c" "matches (Atom AnyChar ZeroOrMore # ts) (Suc i) cs"
      | "matches ts i (c # cs)" by auto
    then show ?R
    proof cases
      case 1
      then obtain p r where "cs = p @ r" "no_line_terminator p" "matches ts (Suc i + length p) r"
        using Cons.IH by blast
      with 1 have "c # cs = (c # p) @ r \<and> no_line_terminator (c # p) \<and> matches ts (i + length (c # p)) r"
        by (simp add: no_line_terminator_def)
      then show ?thesis by blast
    next
      case 2
      then have "c # cs = [] @ (c # cs) \<and> no_line_terminator [] \<and> matches ts (i + length ([]::string)) (c # cs)"
        by (simp add: no_line_terminator_def)
      then show ?thesis by blast
    qed
  next
    assume ?R
    then obtain p r where pr: "c # cs = p @ r" "no_line_terminator p" "matches ts (i + length p) r"
      by blast
    show ?L
    proof (cases p)
      case Nil
      with pr have "matches ts i (c # cs)" by simp
      then show ?thesis by simp
    next
      case (Cons d p')
      with pr have "cs = p' @ r" "c = d" "no_line_terminator p'" "\<not> line_terminator c"
        "matches ts (Suc i + length p') r"
        by (simp_all add: no_line_terminator_def)
      then have "matches (Atom AnyChar ZeroOrMore # ts) (Suc i) cs"
        using Cons.IH by blast
      with \<open>\<not> line_terminator c\<close> show ?thesis by simp
    qed
  qed
qed

lemma matches_plus:
  "matches (Atom AnyChar OneOrMore # ts) i s \<longleftrightarrow>
     (\<exists>p r. p \<noteq> [] \<and> s = p @ r \<and> no_line_terminator p \<and> matches ts (i + length p) r)"
proof (cases s)
  case Nil
  then show ?thesis by simp
next
  case (Cons c cs)
  show ?thesis (is "?L = ?R")
  proof
    assume ?L
    with Cons obtain p r where "\<not> line_terminator c" "cs = p @ r" "no_line_terminator p"
      "matches ts (Suc i + length p) r"
      by (auto simp: matches_star)
    with Cons have "c # p \<noteq> [] \<and> s = (c # p) @ r \<and> no_line_terminator (c # p) \<and> matches ts (i + length (c # p)) r"
      by (simp add: no_line_terminator_def)
    then show ?R by blast
  next
    assume ?R
    then obtain p r where pr: "p \<noteq> []" "s = p @ r" "no_line_terminator p" "matches ts (i + length p) r"
      by blast
    then obtain d p' where p: "p = d # p'" by (cases p) auto
    with pr Cons have "cs = p' @ r \<and> no_line_terminator p' \<and> matches ts (Suc i + length p') r" "\<not> line_terminator c"
      by (simp_all add: no_line_terminator_def)
    then show ?L using Cons by (auto simp: matches_star)
  qed
qed

lemma matches_subdomain:
  "matches (Atom AnyChar OneOrMore # Atom (Literal CHR ''.'') Once # literal_nodes k @ [AssertEnd]) 0 s \<longleftrightarrow>
     (\<exists>p. p \<noteq> [] \<and> no_line_terminator p \<and> s = p @ CHR ''.'' # k)"
proof -
  have "matches (Atom (Literal CHR ''.'') Once # literal_nodes k @ [AssertEnd]) i r \<longleftrightarrow> r = CHR ''.'' # k" for i r
    by (cases r) (auto simp: matches_literal_nodes)
  then show ?thesis by (auto simp: matches_plus)
qed

lemma parent_of_iff: "parent_of b a \<longleftrightarrow> (\<exists>q. a = q @ CHR ''.'' # b)"
proof
  assume "parent_of b a"
  then have "drop (length a - Suc (length b)) a = CHR ''.'' # b"
    by (simp add: parent_of_def)
  moreover have "take (length a - Suc (length b)) a @ drop (length a - Suc (length b)) a = a"
    by (rule append_take_drop_id)
  ultimately have "a = take (length a - Suc (length b)) a @ CHR ''.'' # b"
    by simp
  then show "\<exists>q. a = q @ CHR ''.'' # b" ..
next
  assume "\<exists>q. a = q @ CHR ''.'' # b"
  then show "parent_of b a" by (auto simp: parent_of_def)
qed

lemma subdomain_hit_iff:
  "subdomain_hit k n \<longleftrightarrow> (\<exists>p. p \<noteq> [] \<and> no_line_terminator p \<and> n = p @ CHR ''.'' # k)"
proof
  assume h: "subdomain_hit k n"
  let ?p = "label_of k n"
  from h have "drop (length n - Suc (length k)) n = CHR ''.'' # k"
    by (simp add: subdomain_hit_def dot_suffix_def)
  moreover have "take (length n - Suc (length k)) n @ drop (length n - Suc (length k)) n = n"
    by (rule append_take_drop_id)
  ultimately have "n = ?p @ CHR ''.'' # k"
    by (simp add: label_of_def)
  moreover from h have "?p \<noteq> []" by (auto simp: subdomain_hit_def dot_suffix_def label_of_def)
  moreover from h have "no_line_terminator ?p" by (simp add: subdomain_hit_def)
  ultimately show "\<exists>p. p \<noteq> [] \<and> no_line_terminator p \<and> n = p @ CHR ''.'' # k" by blast
next
  assume "\<exists>p. p \<noteq> [] \<and> no_line_terminator p \<and> n = p @ CHR ''.'' # k"
  then show "subdomain_hit k n"
    by (auto simp: subdomain_hit_def dot_suffix_def label_of_def)
qed

lemma search_subdomain:
  assumes "regex_plain k"
  shows "new_RegExp (subdomain_pattern k) =
           RegExp (Atom AnyChar OneOrMore # Atom (Literal CHR ''.'') Once # literal_nodes k @ [AssertEnd])"
    and "search n (Atom AnyChar OneOrMore # Atom (Literal CHR ''.'') Once # literal_nodes k @ [AssertEnd]) = 0
           \<longleftrightarrow> subdomain_hit k n"
  using assms by (simp_all only: new_RegExp_subdomain_pattern search_zero_iff matches_subdomain subdomain_hit_iff)

lemma match_keys_plain:
  "regex_plain k \<Longrightarrow>
     match_keys (k # rest) n = (if key_hit k n then Return (JSString k) else match_keys rest n)"
  by (simp add: search_subdomain key_hit_def)

lemma match_keys_miss:
  "\<forall>k\<in>set ks. regex_plain k \<and> \<not> key_hit k n \<Longrightarrow> match_keys ks n = Return (JSBoolean False)"
  by (induction ks) (simp_all add: match_keys_plain del: match_keys.simps(2))

lemma match_keys_only_hit:
  assumes "\<forall>k'\<in>set ks. regex_plain k' \<and> (key_hit k' n \<longrightarrow> k' = k)" "k \<in> set ks" "key_hit k n"
  shows "match_keys ks n = Return (JSString k)"
  using assms
proof (induction ks)
  case Nil
  then show ?case by simp
next
  case (Cons a ks)
  have plain: "regex_plain a" and only: "key_hit a n \<longrightarrow> a = k"
    using Cons.prems(1) by simp_all
  have step: "match_keys (a # ks) n = (if key_hit a n then Return (JSString a) else match_keys ks n)"
    using plain by (rule match_keys_plain)
  show ?case
  proof (cases "key_hit a n")
    case True
    with only have "a = k" by simp
    with True step show ?thesis by simp
  next
    case False
    with Cons.prems(3) have "a \<noteq> k" by blast
    with Cons.prems(2) have "k \<in> set ks" by simp
    moreover have "\<forall>k'\<in>set ks. regex_plain k' \<and> (key_hit k' n \<longrightarrow> k' = k)"
      using Cons.prems(1) by simp
    ultimately have "match_keys ks n = Return (JSString k)"
      using Cons.IH Cons.prems(3) by blast
    with False step show ?thesis by simp
  qed
qed

lemma match_keys_returns:
  assumes "\<forall>k\<in>set ks. regex_plain k"
  shows "match_keys ks n = Return (JSBoolean False) \<or> (\<exists>k\<in>set ks. match_keys ks n = Return (JSString k))"
  using assms
proof (induction ks)
  case Nil
  show ?case by simp
next
  case (Cons a ks)
  have step: "match_keys (a # ks) n = (if key_hit a n then Return (JSString a) else match_keys ks n)"
    using Cons.prems by (simp add: match_keys_plain del: match_keys.simps(2))
  have "match_keys ks n = Return (JSBoolean False) \<or> (\<exists>k\<in>set ks. match_keys ks n = Return (JSString k))"
    using Cons.IH Cons.prems by simp
  then show ?case
    unfolding step by (cases "key_hit a n") auto
qed

lemma hits_overlap:
  assumes "key_hit k n" "key_hit k' n" "k \<noteq> k'"
  shows "parent_of k k' \<or> parent_of k' k"
proof -
  have ends: "k = n \<or> (\<exists>p. n = p @ CHR ''.'' # k)" "k' = n \<or> (\<exists>p. n = p @ CHR ''.'' # k')"
    using assms(1,2) by (auto simp: key_hit_def subdomain_hit_iff)
  show ?thesis
  proof (cases "k = n \<or> k' = n")
    case True
    with ends assms(3) show ?thesis by (auto simp: parent_of_iff)
  next
    case False
    with ends obtain p p' where n: "n = p @ CHR ''.'' # k" "n = p' @ CHR ''.'' # k'" by blast
    then have "p @ CHR ''.'' # k = p' @ CHR ''.'' # k'" by simp
    then obtain us where "(p = p' @ us \<and> us @ CHR ''.'' # k = CHR ''.'' # k') \<or> (p @ us = p' \<and> CHR ''.'' # k = us @ CHR ''.'' # k')"
      unfolding append_eq_append_conv2 by blast
    then show ?thesis
    proof
      assume "p = p' @ us \<and> us @ CHR ''.'' # k = CHR ''.'' # k'"
      with assms(3) obtain vs where "k' = vs @ CHR ''.'' # k" by (cases us) auto
      then show ?thesis by (auto simp: parent_of_iff)
    next
      assume "p @ us = p' \<and> CHR ''.'' # k = us @ CHR ''.'' # k'"
      with assms(3) obtain vs where "k = vs @ CHR ''.'' # k'" by (cases us) auto
      then show ?thesis by (auto simp: parent_of_iff)
    qed
  qed
qed

lemma match_keys_overlap_free:
  assumes "\<forall>k'\<in>set ks. regex_plain k'" "overlap_free ks" "k \<in> set ks" "key_hit k n"
  shows "match_keys ks n = Return (JSString k)"
proof (rule match_keys_only_hit)
  show "\<forall>k'\<in>set ks. regex_plain k' \<and> (key_hit k' n \<longrightarrow> k' = k)"
  proof (intro ballI conjI impI)
    fix k' assume k': "k' \<in> set ks"
    then show "regex_plain k'" using assms(1) by blast
    assume hit: "key_hit k' n"
    show "k' = k"
    proof (rule ccontr)
      assume "k' \<noteq> k"
      then have "parent_of k k' \<or> parent_of k' k"
        using hits_overlap [OF assms(4) hit] by blast
      moreover have "\<not> parent_of k k'" "\<not> parent_of k' k"
        using assms(2,3) k' unfolding overlap_free_def by blast+
      ultimately show False by blast
    qed
  qed
  show "k \<in> set ks" by (rule assms(3))
  show "key_hit k n" by (rule assms(4))
qed

lemma search_at_sign_positive:
  "0 < search s at_sign \<longleftrightarrow> CHR ''@'' \<in> set s \<and> hd s \<noteq> CHR ''@''"
  unfolding search_def search_from_at_sign by (cases s) auto

lemma hostname_rejected: "no_local_part v \<Longrightarrow> hostnameFromEmailAddress v = JSNull"
  by (cases v) (auto simp: hostnameFromEmailAddress_def search_at_sign_positive)

lemma hostname_accepted:
  assumes "a \<noteq> []" "CHR ''@'' \<notin> set a"
  shows "hostnameFromEmailAddress (JSString (a @ CHR ''@'' # r)) = JSString (hd (split_on CHR ''@'' r))"
proof -
  have "0 < search (a @ CHR ''@'' # r) at_sign"
    using assms by (simp add: search_at_sign_found)
  moreover have "split_on CHR ''@'' (a @ CHR ''@'' # r) = a # split_on CHR ''@'' r"
    using assms(2) by (rule split_on_first)
  moreover obtain y ys where "split_on CHR ''@'' r = y # ys"
    using split_on_nonempty [of "CHR ''@''" r] by (cases "split_on CHR ''@'' r") auto
  ultimately show ?thesis
    using assms(1) by (simp add: hostnameFromEmailAddress_def element_at_def)
qed

lemma hostname_pieces:
  assumes "hostnameFromEmailAddress v = JSString h"
  shows "CHR ''@'' \<notin> set h"
proof -
  from assms obtain e where e: "v = JSString e"
    by (cases v) (auto simp: hostnameFromEmailAddress_def)
  with assms have "element_at (split_on CHR ''@'' e) 1 = JSString h"
    by (auto simp: hostnameFromEmailAddress_def split: if_splits)
  then have "h \<in> set (split_on CHR ''@'' e)"
    by (auto simp: element_at_def split: if_splits)
  then show ?thesis by (rule split_on_pieces)
qed

lemma isFakeDomain_null: "isFakeDomain st JSNull json = Return (JSBoolean False)"
  by (simp add: isFakeDomain_def)

lemma whitespace_lower_char: "whitespace (lower_char c) = whitespace c"
proof -
  have "(of_char (char_of (of_char c + 32 :: nat)) :: nat) = (of_char c + 32) mod 256"
    by simp
  then show ?thesis
    unfolding whitespace_def lower_char_def code_unit_def Let_def
    by (auto simp del: of_char_of)
qed

lemma line_terminator_lower_char: "line_terminator (lower_char c) = line_terminator c"
proof -
  have "(of_char (char_of (of_char c + 32 :: nat)) :: nat) = (of_char c + 32) mod 256"
    by simp
  then show ?thesis
    unfolding line_terminator_def lower_char_def code_unit_def Let_def
    by (auto simp del: of_char_of)
qed

lemma lower_char_dot: "lower_char CHR ''.'' = CHR ''.''" "\<not> whitespace CHR ''.''" "\<not> line_terminator CHR ''.''"
  "whitespace CHR '' ''"
  by (simp_all add: lower_char_def code_unit_def whitespace_def line_terminator_def)

lemma lower_upper_char: "lower_char c = c \<Longrightarrow> lower_char (upper_char c) = c"
proof -
  assume fixed: "lower_char c = c"
  define n :: nat where "n = of_char c"
  show ?thesis
  proof (cases "97 \<le> n \<and> n \<le> 122")
    case True
    then have "n - 32 < 256" "n - 32 + 32 = n" "65 \<le> n - 32" "n - 32 \<le> 90"
      by arith+
    then have "(n - 32) mod 256 = n - 32" "n - 32 + 32 = n" "65 \<le> n - 32" "n - 32 \<le> 90"
      by simp_all
    moreover have "char_of n = c"
      by (simp add: n_def)
    ultimately show ?thesis
      using True unfolding upper_char_def lower_char_def code_unit_def Let_def n_def [symmetric]
      by (simp del: of_char_of add: of_char_of [where ?'a = nat])
  next
    case False
    then have "upper_char c = c"
      unfolding upper_char_def code_unit_def Let_def n_def [symmetric] by auto
    then show ?thesis using fixed by simp
  qed
qed

lemma toLowerCase_toUpperCase: "toLowerCase k = k \<Longrightarrow> toLowerCase (toUpperCase k) = k"
  by (induction k) (simp_all add: toLowerCase_def toUpperCase_def lower_upper_char)

lemma trim_end: "t \<noteq> [] \<Longrightarrow> \<not> whitespace (last t) \<Longrightarrow> rev (dropWhile whitespace (rev t)) = t"
proof -
  assume "t \<noteq> []" "\<not> whitespace (last t)"
  then have "dropWhile whitespace (rev t) = rev t"
    by (cases "rev t") (auto simp: last_rev hd_rev [symmetric] simp del: rev_is_Nil_conv)
  then show ?thesis by simp
qed

lemma trim_padded:
  assumes "s \<noteq> []" "\<not> whitespace (hd s)" "\<not> whitespace (last s)"
    "\<forall>c\<in>set a. whitespace c" "\<forall>c\<in>set b. whitespace c"
  shows "trim (a @ s @ b) = s"
proof -
  have "dropWhile whitespace (a @ s @ b) = dropWhile whitespace (s @ b)"
    using assms(4) by (simp add: dropWhile_append2)
  also have "\<dots> = s @ b"
    using assms(1,2) by (cases s) auto
  finally have front: "dropWhile whitespace (a @ s @ b) = s @ b" .
  have "\<And>x. x \<in> set (rev b) \<Longrightarrow> whitespace x"
    using assms(5) by simp
  then have "dropWhile whitespace (rev b @ rev s) = dropWhile whitespace (rev s)"
    by (rule dropWhile_append2)
  then have "rev (dropWhile whitespace (rev (s @ b))) = rev (dropWhile whitespace (rev s))"
    by simp
  also have "\<dots> = s"
    using assms(1,3) by (rule trim_end)
  finally show ?thesis
    by (simp only: trim_def front)
qed

lemma trim_label:
  assumes "\<exists>c\<in>set l. \<not> whitespace c" "k = [] \<or> \<not> whitespace (last k)"
  shows "trim (l @ CHR ''.'' # k) = dropWhile whitespace l @ CHR ''.'' # k"
proof -
  let ?t = "dropWhile whitespace l @ CHR ''.'' # k"
  have front: "dropWhile whitespace (l @ CHR ''.'' # k) = ?t"
    using assms(1) by (auto simp: dropWhile_append1)
  have "\<not> whitespace (last ?t)"
    using assms(2) by (auto simp: lower_char_dot)
  moreover have "?t \<noteq> []" by simp
  ultimately have "rev (dropWhile whitespace (rev ?t)) = ?t"
    by (rule trim_end [rotated])
  then show ?thesis
    by (simp only: trim_def front)
qed

lemma isFakeDomain_string:
  "isFakeDomain st (JSString s) json =
     (if s = [] then Return (JSBoolean False)
      else match_keys (effective_keys st json) (trim (toLowerCase s)))"
  by (simp add: isFakeDomain_def effective_keys_def)

lemma isFakeDomain_not_string:
  "\<not> truthy v \<or> typeof v \<noteq> ''string'' \<Longrightarrow> isFakeDomain st v json = Return (JSBoolean False)"
  by (cases v) (auto simp: isFakeDomain_def)

lemma isFakeDomain_returns:
  assumes "\<forall>k\<in>set (effective_keys st json). regex_plain k"
  shows "returns_string_or_false (isFakeDomain st v json)"
proof (cases v)
  case (JSString s)
  show ?thesis
    using match_keys_returns [OF assms, of "trim (toLowerCase s)"]
    by (auto simp: JSString isFakeDomain_string)
qed (simp_all add: isFakeDomain_def)

lemma isPlusAddressingEmail_returns: "returns_boolean (isPlusAddressingEmail v)"
proof (cases v)
  case (JSString e)
  obtain y ys where "split_on CHR ''@'' e = y # ys"
    using split_on_nonempty [of "CHR ''@''" e] by (cases "split_on CHR ''@'' e") auto
  then show ?thesis
    by (simp add: JSString isPlusAddressingEmail_def element_at_def)
qed (simp_all add: isPlusAddressingEmail_def)

lemma line_terminator_in_hit:
  assumes "no_line_terminator k" "key_hit k n"
  shows "no_line_terminator n"
proof -
  from assms(2) consider "k = n" | p where "no_line_terminator p" "n = p @ CHR ''.'' # k"
    by (auto simp: key_hit_def subdomain_hit_iff)
  then show ?thesis
  proof cases
    case 1
    with assms(1) show ?thesis by simp
  next
    case 2
    with assms(1) show ?thesis
      by (auto simp: no_line_terminator_def lower_char_dot)
  qed
qed

section \<open>Extraction of the host name\<close>

text \<open>Claim C6. For a string whose first at sign is not in front, \<open>isPlusAddressingEmail\<close>
  returns true exactly when the text before the first at sign contains a plus. The text is
  taken as it is, without lowercasing or trimming, and a plus after the first at sign plays
  no part.\<close>

theorem isPlusAddressingEmail_local_part:
  assumes "l \<noteq> []" "CHR ''@'' \<notin> set l"
  shows "isPlusAddressingEmail (JSString (l @ CHR ''@'' # r)) = Return (JSBoolean (CHR ''+'' \<in> set l))"
proof -
  have "0 < search (l @ CHR ''@'' # r) at_sign"
    using assms by (simp add: search_at_sign_found)
  moreover have "split_on CHR ''@'' (l @ CHR ''@'' # r) = l # split_on CHR ''@'' r"
    using assms(2) by (rule split_on_first)
  ultimately show ?thesis
    using assms(1) by (simp add: isPlusAddressingEmail_def element_at_def)
qed

theorem isPlusAddressingEmail_local_part_witness:
  "''user'' \<noteq> [] \<and> CHR ''@'' \<notin> set ''user''
   \<and> isPlusAddressingEmail (JSString (''user'' @ CHR ''@'' # ''example+domain.com'')) = Return (JSBoolean False)"
proof -
  have h: "''user'' \<noteq> []" "CHR ''@'' \<notin> set ''user''" by simp_all
  show ?thesis using h isPlusAddressingEmail_local_part [OF h, of "''example+domain.com''"] by simp
qed

text \<open>Claim C7. For every configuration, \<open>isFakeEmail\<close> returns false when its input is
  not a non-empty string, contains no at sign, or starts with one; so does
  \<open>isPlusAddressingEmail\<close>.\<close>

theorem rejected_inputs_yield_false:
  assumes "no_local_part v"
  shows "isFakeEmail st v json = Return (JSBoolean False)
         \<and> isPlusAddressingEmail v = Return (JSBoolean False)"
proof -
  have "isFakeEmail st v json = Return (JSBoolean False)"
    using assms by (simp add: isFakeEmail_def hostname_rejected isFakeDomain_null)
  moreover have "isPlusAddressingEmail v = Return (JSBoolean False)"
    using assms by (cases v) (auto simp: isPlusAddressingEmail_def search_at_sign_positive)
  ultimately show ?thesis by simp
qed

theorem rejected_inputs_yield_false_witness:
  "no_local_part (JSNumber 42)
   \<and> isFakeEmail mockJson (JSNumber 42) (Some mockJson) = Return (JSBoolean False)
   \<and> isPlusAddressingEmail (JSNumber 42) = Return (JSBoolean False)
   \<and> no_local_part (JSString ''@tempmail.com'')
   \<and> isFakeEmail mockJson (JSString ''@tempmail.com'') (Some mockJson) = Return (JSBoolean False)"
proof -
  have h: "no_local_part (JSNumber 42)" "no_local_part (JSString ''@tempmail.com'')" by simp_all
  show ?thesis
    using h rejected_inputs_yield_false [OF h(1), of mockJson "Some mockJson"]
      rejected_inputs_yield_false [OF h(2), of mockJson "Some mockJson"] by simp
qed

text \<open>Claim C9. For a string with a non-empty text before its first at sign and a second at
  sign, \<open>isFakeEmail\<close> is \<open>isFakeDomain\<close> of the text between the first two at signs:
  the split is on every at sign and the second piece is taken, so the candidate domain never
  contains an at sign.\<close>

theorem isFakeEmail_second_segment:
  assumes "a \<noteq> []" "CHR ''@'' \<notin> set a" "CHR ''@'' \<notin> set b"
  shows "hostnameFromEmailAddress (JSString (a @ CHR ''@'' # b @ CHR ''@'' # c)) = JSString b
         \<and> isFakeEmail st (JSString (a @ CHR ''@'' # b @ CHR ''@'' # c)) json
             = isFakeDomain st (JSString b) json
         \<and> (\<forall>v h. hostnameFromEmailAddress v = JSString h \<longrightarrow> CHR ''@'' \<notin> set h)"
proof -
  have "hostnameFromEmailAddress (JSString (a @ CHR ''@'' # b @ CHR ''@'' # c)) = JSString b"
    using assms by (simp add: hostname_accepted split_on_first)
  then show ?thesis by (simp add: isFakeEmail_def hostname_pieces)
qed

theorem isFakeEmail_second_segment_witness:
  "''user'' \<noteq> [] \<and> CHR ''@'' \<notin> set ''user'' \<and> CHR ''@'' \<notin> set ''name''
   \<and> hostnameFromEmailAddress (JSString (''user'' @ CHR ''@'' # ''name'' @ CHR ''@'' # ''tempmail.com'')) = JSString ''name''
   \<and> isFakeEmail mockJson (JSString (''user'' @ CHR ''@'' # ''name'' @ CHR ''@'' # ''tempmail.com'')) (Some mockJson)
       = isFakeDomain mockJson (JSString ''name'') (Some mockJson)"
proof -
  have h: "''user'' \<noteq> []" "CHR ''@'' \<notin> set ''user''" "CHR ''@'' \<notin> set ''name''" by simp_all
  show ?thesis
    using h isFakeEmail_second_segment [OF h, of "''tempmail.com''" mockJson "Some mockJson"] by simp
qed

text \<open>Claim C2, amended. For a non-empty local part without an at sign and a domain without an
  at sign, \<open>isFakeEmail\<close> of local part, at sign and domain is \<open>isFakeDomain\<close> of the
  domain.\<close>

theorem isFakeEmail_single_at:
  assumes "l \<noteq> []" "CHR ''@'' \<notin> set l" "CHR ''@'' \<notin> set d"
  shows "isFakeEmail st (JSString (l @ CHR ''@'' # d)) json = isFakeDomain st (JSString d) json"
proof -
  have "hostnameFromEmailAddress (JSString (l @ CHR ''@'' # d)) = JSString d"
    using assms by (simp add: hostname_accepted split_on_absent)
  then show ?thesis by (simp add: isFakeEmail_def)
qed

theorem isFakeEmail_single_at_witness:
  "isFakeEmail mockJson (JSString (''user.name+tag'' @ CHR ''@'' # ''tempmail.com'')) (Some mockJson)
     = isFakeDomain mockJson (JSString ''tempmail.com'') (Some mockJson)
   \<and> ''user.name+tag'' \<noteq> [] \<and> CHR ''@'' \<notin> set ''user.name+tag'' \<and> CHR ''@'' \<notin> set ''tempmail.com''"
proof -
  have h: "''user.name+tag'' \<noteq> []" "CHR ''@'' \<notin> set ''user.name+tag''" "CHR ''@'' \<notin> set ''tempmail.com''"
    by simp_all
  show ?thesis using h isFakeEmail_single_at [OF h, of mockJson "Some mockJson"] by simp
qed

text \<open>With an empty local part the at sign is in front and the result is false, whatever the
  domain.\<close>

theorem empty_local_part_counterexample:
  "isFakeEmail mockJson (JSString ([] @ CHR ''@'' # ''tempmail.com'')) (Some mockJson) = Return (JSBoolean False)
   \<and> isFakeDomain mockJson (JSString ''tempmail.com'') (Some mockJson) = Return (JSString ''tempmail.com'')"
  by code_simp

text \<open>Claim C4. With more than one at sign the candidate domain is the second piece of the
  split, not everything after the first at sign: for \<open>user@name@tempmail.com\<close> it is
  \<open>name\<close>, and a listed domain followed by an at sign and more text is reported.\<close>

theorem hostname_of_two_at_signs:
  "hostnameFromEmailAddress (JSString ''user@name@tempmail.com'') = JSString ''name''
   \<and> isFakeEmail mockJson (JSString ''user@tempmail.com@example.org'') (Some mockJson)
       = Return (JSString ''tempmail.com'')"
  by code_simp

section \<open>Matching against the keys\<close>

text \<open>Claim C1, amended. For a configuration with the single key \<open>k\<close>, free of pattern syntax,
  and every string input: \<open>isFakeDomain\<close> returns \<open>k\<close> exactly when the input is not empty
  and its lowercased, trimmed form equals \<open>k\<close>, or ends with a dot and \<open>k\<close> after at least
  one character and no line terminator; in every other case it returns false. The line
  terminators are the characters the regular-expression dot refuses: LF, CR, U+2028 and
  U+2029, of which LF and CR lie in the range of code units modelled.\<close>

theorem isFakeDomain_single_key:
  assumes "regex_plain k" "effective_keys st json = [k]"
  shows "isFakeDomain st (JSString s) json =
           (if s \<noteq> [] \<and> (trim (toLowerCase s) = k
                 \<or> (dot_suffix k (trim (toLowerCase s))
                     \<and> no_line_terminator (label_of k (trim (toLowerCase s)))))
            then Return (JSString k) else Return (JSBoolean False))"
  using assms(1)
  by (auto simp add: isFakeDomain_string assms(2) match_keys_plain key_hit_def subdomain_hit_def
        simp del: match_keys.simps(2))

theorem isFakeDomain_single_key_witness:
  "regex_plain ''tempmail.com'' \<and> effective_keys mockJson (Some tempmail_only) = [''tempmail.com'']
   \<and> isFakeDomain mockJson (JSString ''Deep.Sub.TEMPMAIL.com '') (Some tempmail_only)
       = Return (JSString ''tempmail.com'')
   \<and> isFakeDomain mockJson (JSString ''notatempmail.com'') (Some tempmail_only)
       = Return (JSBoolean False)"
proof -
  have h: "regex_plain ''tempmail.com''" "effective_keys mockJson (Some tempmail_only) = [''tempmail.com'']"
    by code_simp+
  have hit: "dot_suffix ''tempmail.com'' (trim (toLowerCase ''Deep.Sub.TEMPMAIL.com ''))"
    "no_line_terminator (label_of ''tempmail.com'' (trim (toLowerCase ''Deep.Sub.TEMPMAIL.com '')))"
    by code_simp+
  have miss: "trim (toLowerCase ''notatempmail.com'') \<noteq> ''tempmail.com''"
    "\<not> dot_suffix ''tempmail.com'' (trim (toLowerCase ''notatempmail.com''))"
    by code_simp+
  show ?thesis
    using h hit miss isFakeDomain_single_key [OF h, of "''Deep.Sub.TEMPMAIL.com ''"]
      isFakeDomain_single_key [OF h, of "''notatempmail.com''"]
    by simp
qed

text \<open>A line feed inside the label defeats the subdomain test although the input ends with a
  dot and the key. The empty input is refused before any key is tried, also for the empty
  key. A key that is a closing parenthesis makes the call throw.\<close>

theorem newline_label_counterexample:
  "dot_suffix ''tempmail.com'' (trim (toLowerCase (''a'' @ [CHR 0x0A] @ ''b.tempmail.com'')))
   \<and> isFakeDomain mockJson (JSString (''a'' @ [CHR 0x0A] @ ''b.tempmail.com'')) (Some tempmail_only)
       = Return (JSBoolean False)
   \<and> trim (toLowerCase []) = []
   \<and> isFakeDomain mockJson (JSString []) (Some empty_key) = Return (JSBoolean False)
   \<and> effective_keys mockJson (Some unbalanced_key) = ['')'']
   \<and> isFakeDomain mockJson (JSString ''x'') (Some unbalanced_key) = Throw SyntaxError"
  by code_simp

text \<open>Claim C3, amended. In a configuration whose keys are free of pattern syntax and where no
  key is a parent domain of another one, for every key \<open>k\<close> that is lowercase and does not
  end in white space, and every label \<open>L\<close> without dots and line terminators that has a
  character other than white space: \<open>isFakeDomain\<close> of \<open>L\<close>, a dot and \<open>k\<close> returns
  \<open>k\<close>.\<close>

theorem isFakeDomain_label_under_key:
  assumes "\<forall>k'\<in>set (effective_keys st json). regex_plain k'"
    and "overlap_free (effective_keys st json)"
    and "k \<in> set (effective_keys st json)"
    and "toLowerCase k = k"
    and "k = [] \<or> \<not> whitespace (last k)"
    and "CHR ''.'' \<notin> set L"
    and "no_line_terminator L"
    and "\<exists>c\<in>set L. \<not> whitespace c"
  shows "isFakeDomain st (JSString (L @ CHR ''.'' # k)) json = Return (JSString k)"
proof -
  let ?p = "dropWhile whitespace (toLowerCase L)"
  have lower: "toLowerCase (L @ CHR ''.'' # k) = toLowerCase L @ CHR ''.'' # k"
    using assms(4) by (simp add: toLowerCase_def lower_char_dot)
  have "\<exists>c\<in>set (toLowerCase L). \<not> whitespace c"
    using assms(8) by (auto simp: toLowerCase_def whitespace_lower_char)
  then have n: "trim (toLowerCase (L @ CHR ''.'' # k)) = ?p @ CHR ''.'' # k" and p: "?p \<noteq> []"
    using assms(5) by (simp_all add: lower trim_label)
  have "set ?p \<subseteq> set (toLowerCase L)"
    by (rule set_dropWhileD [THEN subsetI])
  then have "no_line_terminator ?p"
    using assms(7) by (auto simp: no_line_terminator_def toLowerCase_def line_terminator_lower_char)
  with p have "key_hit k (?p @ CHR ''.'' # k)"
    unfolding key_hit_def subdomain_hit_iff by blast
  then have "match_keys (effective_keys st json) (?p @ CHR ''.'' # k) = Return (JSString k)"
    using assms(1,2,3) by (rule match_keys_overlap_free [rotated 3])
  then show ?thesis
    by (simp add: isFakeDomain_string n)
qed

theorem isFakeDomain_label_under_key_witness:
  "list_all regex_plain (effective_keys mockJson None)
   \<and> overlap_free (effective_keys mockJson None)
   \<and> ''fakeemail.net'' \<in> set (effective_keys mockJson None)
   \<and> toLowerCase ''fakeemail.net'' = ''fakeemail.net''
   \<and> \<not> whitespace (last ''fakeemail.net'')
   \<and> CHR ''.'' \<notin> set '' My-User''
   \<and> no_line_terminator '' My-User''
   \<and> list_ex (\<lambda>c. \<not> whitespace c) '' My-User''
   \<and> isFakeDomain mockJson (JSString ('' My-User'' @ CHR ''.'' # ''fakeemail.net'')) None
       = Return (JSString ''fakeemail.net'')"
proof -
  have h: "\<forall>k'\<in>set (effective_keys mockJson None). regex_plain k'"
    "overlap_free (effective_keys mockJson None)"
    "''fakeemail.net'' \<in> set (effective_keys mockJson None)"
    "toLowerCase ''fakeemail.net'' = ''fakeemail.net''"
    "''fakeemail.net'' = [] \<or> \<not> whitespace (last ''fakeemail.net'')"
    "CHR ''.'' \<notin> set '' My-User''"
    "no_line_terminator '' My-User''"
    "\<exists>c\<in>set '' My-User''. \<not> whitespace c"
    by code_simp+
  show ?thesis
    using h isFakeDomain_label_under_key [OF h] by (simp add: list_all_iff list_ex_iff)
qed

text \<open>A label of one blank is trimmed away; a parent domain listed first wins; a line feed in
  the label, a capital in the key and a key that is a closing parenthesis each end the match.\<close>

theorem label_counterexample:
  "isFakeDomain mockJson (JSString ('' '' @ CHR ''.'' # ''tempmail.com'')) (Some mockJson)
     = Return (JSBoolean False)
   \<and> isFakeDomain mockJson (JSString (''x'' @ CHR ''.'' # ''tempmail.com'')) (Some overlapping)
     = Return (JSString ''com'')
   \<and> isFakeDomain mockJson (JSString ((''a'' @ [CHR 0x0A] @ ''b'') @ CHR ''.'' # ''tempmail.com'')) (Some mockJson)
     = Return (JSBoolean False)
   \<and> isFakeDomain mockJson (JSString (''x'' @ CHR ''.'' # ''Tempmail.com'')) (Some uppercase_key)
     = Return (JSBoolean False)
   \<and> isFakeDomain mockJson (JSString (''x'' @ CHR ''.'' # '')'')) (Some unbalanced_key)
     = Throw SyntaxError"
  by code_simp

text \<open>Claim C5, amended. In a configuration whose keys are free of pattern syntax and where no
  key is a parent domain of another one, for every key \<open>k\<close> that is lowercase ASCII, not
  empty, and neither starts nor ends with white space: \<open>isFakeDomain\<close> returns \<open>k\<close> for
  \<open>k\<close> itself and for its upper case between two blanks on each side.\<close>

theorem isFakeDomain_key_itself:
  assumes "\<forall>k'\<in>set (effective_keys st json). regex_plain k'"
    and "overlap_free (effective_keys st json)"
    and "k \<in> set (effective_keys st json)"
    and "toLowerCase k = k"
    and "k \<noteq> []"
    and "\<not> whitespace (hd k)"
    and "\<not> whitespace (last k)"
    and "ascii k"
  shows "isFakeDomain st (JSString k) json = Return (JSString k)
         \<and> isFakeDomain st (JSString (''  '' @ toUpperCase k @ ''  '')) json = Return (JSString k)"
proof -
  have blanks: "\<forall>c\<in>set ''  ''. whitespace c" "\<forall>c\<in>set []. whitespace c"
    by (simp_all add: lower_char_dot)
  have "trim ([] @ k @ []) = k"
    using assms(5,6,7) blanks(2) blanks(2) by (rule trim_padded)
  then have plain_input: "trim (toLowerCase k) = k"
    using assms(4) by simp
  have "toLowerCase (''  '' @ toUpperCase k @ ''  '') = ''  '' @ toLowerCase (toUpperCase k) @ ''  ''"
    by (simp add: toLowerCase_def lower_char_def code_unit_def)
  also have "\<dots> = ''  '' @ k @ ''  ''"
    using assms(4) by (simp add: toLowerCase_toUpperCase)
  finally have "trim (toLowerCase (''  '' @ toUpperCase k @ ''  '')) = trim (''  '' @ k @ ''  '')"
    by simp
  also have "\<dots> = k"
    using assms(5,6,7) blanks(1) blanks(1) by (rule trim_padded)
  finally have padded_input: "trim (toLowerCase (''  '' @ toUpperCase k @ ''  '')) = k" .
  have "key_hit k k" by (simp add: key_hit_def)
  then have found: "match_keys (effective_keys st json) k = Return (JSString k)"
    using assms(1,2,3) by (rule match_keys_overlap_free [rotated 3])
  have "isFakeDomain st (JSString k) json = Return (JSString k)"
    using assms(5) found by (simp add: isFakeDomain_string plain_input)
  moreover have "''  '' @ toUpperCase k @ ''  '' \<noteq> []"
    by simp
  then have "isFakeDomain st (JSString (''  '' @ toUpperCase k @ ''  '')) json = Return (JSString k)"
    by (simp only: isFakeDomain_string if_False padded_input found)
  ultimately show ?thesis by blast
qed

theorem isFakeDomain_key_itself_witness:
  "list_all regex_plain (effective_keys mockJson None)
   \<and> overlap_free (effective_keys mockJson None)
   \<and> ''tempmail.com'' \<in> set (effective_keys mockJson None)
   \<and> toLowerCase ''tempmail.com'' = ''tempmail.com''
   \<and> ''tempmail.com'' \<noteq> []
   \<and> \<not> whitespace (hd ''tempmail.com'') \<and> \<not> whitespace (last ''tempmail.com'')
   \<and> ascii ''tempmail.com''
   \<and> toUpperCase ''tempmail.com'' = ''TEMPMAIL.COM''
   \<and> isFakeDomain mockJson (JSString ''tempmail.com'') None = Return (JSString ''tempmail.com'')
   \<and> isFakeDomain mockJson (JSString (''  '' @ ''TEMPMAIL.COM'' @ ''  '')) None
       = Return (JSString ''tempmail.com'')"
proof -
  have h: "\<forall>k'\<in>set (effective_keys mockJson None). regex_plain k'"
    "overlap_free (effective_keys mockJson None)"
    "''tempmail.com'' \<in> set (effective_keys mockJson None)"
    "toLowerCase ''tempmail.com'' = ''tempmail.com''"
    "''tempmail.com'' \<noteq> []"
    "\<not> whitespace (hd ''tempmail.com'')" "\<not> whitespace (last ''tempmail.com'')"
    "ascii ''tempmail.com''"
    by code_simp+
  have u: "toUpperCase ''tempmail.com'' = ''TEMPMAIL.COM''"
    by code_simp
  show ?thesis
    using h u isFakeDomain_key_itself [OF h] by (simp only: simp_thms list_all_iff)
qed

text \<open>With a parent domain listed first the parent is returned for the key itself. A key with a
  blank in front, and the empty key, are never returned for themselves.\<close>

theorem overlapping_keys_counterexample:
  "isFakeDomain mockJson (JSString ''tempmail.com'') (Some overlapping) = Return (JSString ''com'')
   \<and> isFakeDomain mockJson (JSString (''  '' @ toUpperCase ''tempmail.com'' @ ''  '')) (Some overlapping)
       = Return (JSString ''com'')
   \<and> toLowerCase '' a.com'' = '' a.com''
   \<and> isFakeDomain mockJson (JSString '' a.com'') (Some blank_key) = Return (JSBoolean False)
   \<and> isFakeDomain mockJson (JSString []) (Some empty_key) = Return (JSBoolean False)"
  by code_simp

text \<open>Claim C8, amended. When the keys in use are free of pattern syntax, each of the three
  functions returns for every input value: \<open>isFakeDomain\<close> and \<open>isFakeEmail\<close> a string or
  false, \<open>isPlusAddressingEmail\<close> a boolean, and an input that is not a non-empty string
  makes \<open>isFakeDomain\<close> return false.\<close>

theorem calls_return:
  assumes "\<forall>k\<in>set (effective_keys st json). regex_plain k"
  shows "returns_string_or_false (isFakeDomain st v json)
         \<and> returns_string_or_false (isFakeEmail st v json)
         \<and> returns_boolean (isPlusAddressingEmail v)
         \<and> (\<not> truthy v \<or> typeof v \<noteq> ''string'' \<longrightarrow> isFakeDomain st v json = Return (JSBoolean False))"
  using assms
  by (simp add: isFakeDomain_returns isFakeEmail_def isPlusAddressingEmail_returns isFakeDomain_not_string)

theorem calls_return_witness:
  "list_all regex_plain (effective_keys mockJson None)
   \<and> returns_string_or_false (isFakeDomain mockJson (JSString ''user.tempmail.com'') None)
   \<and> returns_string_or_false (isFakeEmail mockJson JSObject None)
   \<and> returns_boolean (isPlusAddressingEmail (JSBoolean True))
   \<and> \<not> truthy (JSString []) \<and> isFakeDomain mockJson (JSString []) None = Return (JSBoolean False)"
proof -
  have h: "\<forall>k\<in>set (effective_keys mockJson None). regex_plain k"
    by code_simp
  show ?thesis
    using h calls_return [OF h, of "JSString ''user.tempmail.com''"]
      calls_return [OF h, of JSObject] calls_return [OF h, of "JSBoolean True"]
      calls_return [OF h, of "JSString []"]
    by (simp add: list_all_iff)
qed

text \<open>A key that is a closing parenthesis gives an invalid pattern, and the constructor throws.\<close>

theorem unbalanced_key_counterexample:
  "isFakeDomain mockJson (JSString ''x'') (Some unbalanced_key) = Throw SyntaxError
   \<and> isFakeEmail mockJson (JSString ''a@x'') (Some unbalanced_key) = Throw SyntaxError"
  by code_simp

text \<open>Claim C10, amended. When the keys in use are free of pattern syntax and of line
  terminators, and the lowercased, trimmed input ends with a dot and \<open>k\<close> with a line
  terminator somewhere before that suffix, \<open>isFakeDomain\<close> returns false.\<close>

theorem isFakeDomain_line_terminator:
  assumes "\<forall>k'\<in>set (effective_keys st json). regex_plain k' \<and> no_line_terminator k'"
    and "trim (toLowerCase s) = p @ CHR ''.'' # k"
    and "\<exists>c\<in>set p. line_terminator c"
  shows "isFakeDomain st (JSString s) json = Return (JSBoolean False)"
proof -
  let ?n = "trim (toLowerCase s)"
  have "\<not> no_line_terminator ?n"
    using assms(2,3) by (auto simp: no_line_terminator_def)
  then have "\<forall>k'\<in>set (effective_keys st json). regex_plain k' \<and> \<not> key_hit k' ?n"
    using assms(1) line_terminator_in_hit by blast
  then have "match_keys (effective_keys st json) ?n = Return (JSBoolean False)"
    by (rule match_keys_miss)
  then show ?thesis
    by (simp add: isFakeDomain_string)
qed

theorem isFakeDomain_line_terminator_witness:
  "list_all (\<lambda>k'. regex_plain k' \<and> no_line_terminator k') (effective_keys mockJson None)
   \<and> trim (toLowerCase (''A'' @ [CHR 0x0A] @ ''b.tempmail.com'')) = (''a'' @ [CHR 0x0A] @ ''b'') @ CHR ''.'' # ''tempmail.com''
   \<and> list_ex line_terminator (''a'' @ [CHR 0x0A] @ ''b'')
   \<and> isFakeDomain mockJson (JSString (''A'' @ [CHR 0x0A] @ ''b.tempmail.com'')) None = Return (JSBoolean False)"
proof -
  have h: "\<forall>k'\<in>set (effective_keys mockJson None). regex_plain k' \<and> no_line_terminator k'"
    "trim (toLowerCase (''A'' @ [CHR 0x0A] @ ''b.tempmail.com'')) = (''a'' @ [CHR 0x0A] @ ''b'') @ CHR ''.'' # ''tempmail.com''"
    "\<exists>c\<in>set (''a'' @ [CHR 0x0A] @ ''b''). line_terminator c"
    by code_simp+
  show ?thesis
    using h isFakeDomain_line_terminator [OF h] by (simp only: simp_thms list_all_iff list_ex_iff)
qed

text \<open>A line feed in front of the input is trimmed before matching, so the key is returned. A
  key that itself contains the line feed is matched and returned. With a key that is a
  closing parenthesis the call throws.\<close>

theorem trimmed_newline_counterexample:
  "trim (toLowerCase ([CHR 0x0A] @ ''b.tempmail.com'')) = ''b'' @ CHR ''.'' # ''tempmail.com''
   \<and> CHR 0x0A \<in> set ([CHR 0x0A] @ ''b'')
   \<and> isFakeDomain mockJson (JSString ([CHR 0x0A] @ ''b.tempmail.com'')) (Some mockJson)
       = Return (JSString ''tempmail.com'')
   \<and> trim (toLowerCase (''a.x'' @ [CHR 0x0A] @ ''y.mail.com''))
       = (''a.x'' @ [CHR 0x0A] @ ''y'') @ CHR ''.'' # ''mail.com''
   \<and> isFakeDomain mockJson (JSString (''a.x'' @ [CHR 0x0A] @ ''y.mail.com'')) (Some newline_key)
       = Return (JSString (''x'' @ [CHR 0x0A] @ ''y.mail.com''))
   \<and> trim (toLowerCase (''a'' @ [CHR 0x0A] @ ''b.)'')) = (''a'' @ [CHR 0x0A] @ ''b'') @ CHR ''.'' # '')''
   \<and> isFakeDomain mockJson (JSString (''a'' @ [CHR 0x0A] @ ''b.)'')) (Some unbalanced_key)
       = Throw SyntaxError"
  by code_simp

end
